theory Spec2Isabelle
  imports Complex_Main "HOL-Library.Sublist" "HOL-Library.AList"
begin

section \<open>JavaScript values\<close>

text \<open>
  A JavaScript string is modelled as a \<^typ>\<open>string\<close> whose characters are the UTF-16 code
  units below 256 (so \<open>CHR 0xE9\<close> is the letter e with an acute accent and \<open>CHR 0xA0\<close>
  the no-break space). A value that may be \<open>null\<close> or \<open>undefined\<close> is an \<open>option\<close>.
  Numbers that are only stored and passed on (progress, settings) are rationals.
\<close>

text \<open>
  \<open>String.prototype.trim\<close> removes ECMAScript white space and line terminators from both
  ends. Among the code units below 256 these are TAB, LF, VT, FF, CR, SPACE and NBSP.
\<close>

definition is_space :: "char \<Rightarrow> bool" where
  "is_space c = ((of_char c :: nat) \<in> {0x09, 0x0A, 0x0B, 0x0C, 0x0D, 0x20, 0xA0})"

definition trim :: "string \<Rightarrow> string" where
  "trim s = rev (dropWhile is_space (rev (dropWhile is_space s)))"

text \<open>Truthiness of a string-or-null value and of a number-or-null value.\<close>

definition truthy_str :: "string option \<Rightarrow> bool" where
  "truthy_str v = (case v of None \<Rightarrow> False | Some x \<Rightarrow> x \<noteq> [])"

definition truthy_num :: "nat option \<Rightarrow> bool" where
  "truthy_num v = (case v of None \<Rightarrow> False | Some n \<Rightarrow> n \<noteq> 0)"

text \<open>\<open>a || b\<close> on a string-or-null \<open>a\<close> and a string \<open>b\<close>.\<close>

definition or_else :: "string option \<Rightarrow> string \<Rightarrow> string" where
  "or_else a b = (case a of None \<Rightarrow> b | Some x \<Rightarrow> if x = [] then b else x)"

definition drop_nth :: "nat \<Rightarrow> 'a list \<Rightarrow> 'a list" where
  "drop_nth k xs = take k xs @ drop (Suc k) xs"

section \<open>Data exchanged with the backend\<close>

text \<open>The video reference \<open>{file_id, filename}\<close> of an uploaded or generated video.\<close>

record video_ref =
  file_id :: string
  filename :: string

text \<open>
  The body of a response of \<open>GET /api/video-generation-status/{task_id}\<close>:
  \<open>{status, progress, video_info?, error?}\<close>. The field \<open>error\<close> is named
  \<open>task_error\<close> here, \<open>error\<close> being a state variable of the components.
\<close>

record task_status =
  status :: string
  progress :: rat
  video_info :: "video_ref option"
  task_error :: "string option"

type_synonym settings_obj = "(string \<times> rat) list"

datatype request =
    PostGenerateVideo string string settings_obj
  | GetStatus string

section \<open>VideoGenerator.js\<close>

subsection \<open>Component state, React bookkeeping and browser state\<close>

text \<open>
  \<open>setInterval(checkTaskStatus, 2000)\<close> keeps the function \<open>checkTaskStatus\<close> of the
  render in which the effect ran: its free variables \<open>taskId\<close> and \<open>statusInterval\<close>
  have the values of that render for as long as the timer lives.
\<close>

record timer =
  timer_id :: nat
  cb_taskId :: "string option"
  cb_statusInterval :: "nat option"

text \<open>
  The first ten fields are the \<open>useState\<close> variables of the component, in the order of
  the source. \<open>taskStatus\<close> holds the response object together with its identity (a
  fresh number per response), since React compares effect dependencies with \<open>Object.is\<close>.
  The \<open>deps_\<close> fields are the dependency values of the last commit,
  \<open>cleanup_statusInterval\<close> is the \<open>statusInterval\<close> that the pending cleanup function
  of the polling effect closed over. \<open>timers\<close> are the active intervals of the browser,
  \<open>inflight_gets\<close> the status requests not yet answered (each with the
  \<open>statusInterval\<close> its \<open>catch\<close> block closed over), \<open>pending_posts\<close> the number
  of unanswered generation requests, \<open>requests\<close> the log of every request issued.
\<close>

record vg =
  prompt :: string
  provider :: string
  settings :: settings_obj
  loading :: bool
  error :: string
  taskId :: "string option"
  taskStatus :: "(nat \<times> task_status) option"
  generatedVideo :: "video_ref option"
  statusInterval :: "nat option"
  showAdvancedSettings :: bool
  deps_provider :: string
  deps_taskId :: "string option"
  deps_taskStatus :: "(nat \<times> task_status) option"
  cleanup_statusInterval :: "nat option"
  timers :: "timer list"
  next_timer :: nat
  next_object :: nat
  pending_posts :: nat
  inflight_gets :: "nat option list"
  requests :: "request list"

subsection \<open>Settings templates\<close>

definition template_replicate :: settings_obj where
  "template_replicate =
     [(''num_frames'', 24), (''fps'', 8), (''width'', 576), (''height'', 320),
      (''motion_bucket_id'', 127)]"

definition template_stability :: settings_obj where
  "template_stability =
     [(''duration'', 3), (''width'', 768), (''height'', 432), (''cfg_scale'', 15 / 2)]"

definition template_runway :: settings_obj where
  "template_runway = [(''num_steps'', 50), (''fps'', 24)]"

definition settingsTemplates :: "string \<Rightarrow> settings_obj option" where
  "settingsTemplates =
     map_of [(''replicate'', template_replicate),
             (''stability'', template_stability),
             (''runway'', template_runway)]"

text \<open>The three \<open>option\<close> elements of the provider \<open>select\<close> and their values.\<close>

datatype provider_option = Replicate | Stability | Runway

fun option_value :: "provider_option \<Rightarrow> string" where
  "option_value Replicate = ''replicate''"
| "option_value Stability = ''stability''"
| "option_value Runway = ''runway''"

subsection \<open>Messages\<close>

definition msg_prompt_required :: string where
  "msg_prompt_required =
     ''Veuillez entrer une description pour la vid'' @ [CHR 0xE9] @ ''o''"

definition msg_status_check :: string where
  "msg_status_check =
     ''Erreur lors de la v'' @ [CHR 0xE9] @ ''rification du statut de la g'' @ [CHR 0xE9]
       @ ''n'' @ [CHR 0xE9] @ ''ration''"

definition msg_no_server :: string where
  "msg_no_server = ''Impossible de communiquer avec le serveur''"

subsection \<open>Effects\<close>

definition clearInterval :: "nat \<Rightarrow> vg \<Rightarrow> vg" where
  "clearInterval i s = s\<lparr>timers := filter (\<lambda>t. timer_id t \<noteq> i) (timers s)\<rparr>"

text \<open>
  \<open>useEffect(() => setSettings(settingsTemplates[provider] || settingsTemplates.replicate),
  [provider])\<close>. The provider is always the value of one of the three options, so the
  lookup never reaches a property inherited from \<open>Object.prototype\<close>.
\<close>

definition effect_provider :: "string \<Rightarrow> vg \<Rightarrow> vg" where
  "effect_provider p s =
     s\<lparr>settings := (case settingsTemplates p of Some t \<Rightarrow> t | None \<Rightarrow> template_replicate)\<rparr>"

text \<open>
  The polling effect, dependencies \<open>[taskId]\<close>. Its cleanup clears the
  \<open>statusInterval\<close> of the render in which the effect last ran; its body, given the
  \<open>taskId\<close> and \<open>statusInterval\<close> of the current render, starts an interval whose
  callback closes over these two values, and stores the interval's id.
\<close>

definition effect_poll_cleanup :: "vg \<Rightarrow> vg" where
  "effect_poll_cleanup s =
     (case cleanup_statusInterval s of
        None \<Rightarrow> s
      | Some i \<Rightarrow> if i \<noteq> 0 then clearInterval i s else s)"

definition effect_poll :: "string option \<Rightarrow> nat option \<Rightarrow> vg \<Rightarrow> vg" where
  "effect_poll tid si s =
     (let s' = s\<lparr>cleanup_statusInterval := si\<rparr> in
      if truthy_str tid \<and> \<not> truthy_num si
      then s'\<lparr>timers := timers s @
                 [\<lparr>timer_id = next_timer s, cb_taskId = tid, cb_statusInterval = si\<rparr>],
              next_timer := Suc (next_timer s),
              statusInterval := Some (next_timer s)\<rparr>
      else s')"

text \<open>The terminal-status effect, dependencies \<open>[taskStatus]\<close>.\<close>

definition effect_terminal :: "(nat \<times> task_status) option \<Rightarrow> nat option \<Rightarrow> vg \<Rightarrow> vg" where
  "effect_terminal ts si s =
     (case ts of
        None \<Rightarrow> s
      | Some (_, d) \<Rightarrow>
          if status d = ''completed'' \<or> status d = ''failed''
          then
            let s1 = (case si of
                        None \<Rightarrow> s
                      | Some i \<Rightarrow>
                          if i \<noteq> 0 then (clearInterval i s)\<lparr>statusInterval := None\<rparr> else s)
            in (if status d = ''completed'' \<and> video_info d \<noteq> None
                then s1\<lparr>generatedVideo := video_info d\<rparr>
                else s1)
          else s)"

text \<open>
  A commit after a render: every effect whose dependency differs from the one of the
  previous commit runs, cleanups first, with the values of this render. The effects only
  set \<open>settings\<close>, \<open>statusInterval\<close> and \<open>generatedVideo\<close>, none of which is a
  dependency, so the render they trigger runs no effect (lemma \<open>commit_settled\<close>).
\<close>

definition commit :: "vg \<Rightarrow> vg" where
  "commit s =
     (let p = provider s; tid = taskId s; ts = taskStatus s; si = statusInterval s;
          s0 = (if tid \<noteq> deps_taskId s then effect_poll_cleanup s else s);
          s1 = (if p \<noteq> deps_provider s then effect_provider p s0 else s0);
          s2 = (if tid \<noteq> deps_taskId s then effect_poll tid si s1 else s1);
          s3 = (if ts \<noteq> deps_taskStatus s then effect_terminal ts si s2 else s2)
      in s3\<lparr>deps_provider := p, deps_taskId := tid, deps_taskStatus := ts\<rparr>)"

subsection \<open>Handlers\<close>

definition handleGenerateVideo :: "vg \<Rightarrow> vg" where
  "handleGenerateVideo s =
     (if trim (prompt s) = [] then s\<lparr>error := msg_prompt_required\<rparr>
      else s\<lparr>loading := True, error := [], taskId := None, taskStatus := None,
             generatedVideo := None,
             requests := requests s @ [PostGenerateVideo (prompt s) (provider s) (settings s)],
             pending_posts := Suc (pending_posts s)\<rparr>)"

text \<open>The two continuations of \<open>await axios.post(...)\<close> in \<open>handleGenerateVideo\<close>.\<close>

definition post_resolved :: "string \<Rightarrow> vg \<Rightarrow> vg" where
  "post_resolved task_id s = s\<lparr>taskId := Some task_id\<rparr>"

definition post_rejected :: "string option \<Rightarrow> vg \<Rightarrow> vg" where
  "post_rejected detail s =
     s\<lparr>error := ''Erreur: '' @ or_else detail msg_no_server, loading := False\<rparr>"

text \<open>\<open>checkTaskStatus\<close> as called by a timer, up to the \<open>await\<close>.\<close>

definition checkTaskStatus :: "timer \<Rightarrow> vg \<Rightarrow> vg" where
  "checkTaskStatus t s =
     (case cb_taskId t of
        None \<Rightarrow> s
      | Some x \<Rightarrow>
          if x = [] then s
          else s\<lparr>requests := requests s @ [GetStatus x],
                 inflight_gets := inflight_gets s @ [cb_statusInterval t]\<rparr>)"

text \<open>Its two continuations; \<open>c\<close> is the \<open>statusInterval\<close> of the callback's closure.\<close>

definition get_resolved :: "task_status \<Rightarrow> vg \<Rightarrow> vg" where
  "get_resolved d s =
     s\<lparr>taskStatus := Some (next_object s, d), next_object := Suc (next_object s)\<rparr>"

definition get_rejected :: "nat option \<Rightarrow> vg \<Rightarrow> vg" where
  "get_rejected c s =
     (let s1 = s\<lparr>error := msg_status_check\<rparr> in
      case c of
        None \<Rightarrow> s1
      | Some i \<Rightarrow> if i \<noteq> 0 then (clearInterval i s1)\<lparr>statusInterval := None\<rparr> else s1)"

definition updateSetting :: "string \<Rightarrow> rat \<Rightarrow> vg \<Rightarrow> vg" where
  "updateSetting k v s = s\<lparr>settings := AList.update k v (settings s)\<rparr>"

subsection \<open>Events\<close>

text \<open>
  Everything that can happen to a mounted component: the user edits the prompt, picks a
  provider, edits a setting, shows or hides the advanced settings, or submits the form; the generation request is answered
  (with the \<open>task_id\<close> string of the body, or with an error and its optional
  \<open>detail\<close>);
  a timer fires; a status request is answered (the \<open>k\<close>-th of those in flight, in any
  order) with a body or with an error. An event that cannot happen in the current state
  (a timer that is not active, an answer to no request) leaves it unchanged. Each event
  runs to completion, the commit of the render it causes included, before the next one.
  Unmounting is not among the events: all properties are about a mounted component.
\<close>

datatype event =
    ChangePrompt string
  | SelectProvider provider_option
  | UpdateSetting string rat
  | ToggleAdvanced
  | Submit
  | PostOk string
  | PostErr "string option"
  | Tick nat
  | GetOk nat task_status
  | GetErr nat

fun step :: "event \<Rightarrow> vg \<Rightarrow> vg" where
  "step (ChangePrompt v) s = commit (s\<lparr>prompt := v\<rparr>)"
| "step (SelectProvider p) s = commit (s\<lparr>provider := option_value p\<rparr>)"
| "step (UpdateSetting k v) s = commit (updateSetting k v s)"
| "step ToggleAdvanced s = commit (s\<lparr>showAdvancedSettings := \<not> showAdvancedSettings s\<rparr>)"
| "step Submit s = commit (handleGenerateVideo s)"
| "step (PostOk task_id) s =
     (if pending_posts s = 0 then s
      else commit (post_resolved task_id (s\<lparr>pending_posts := pending_posts s - 1\<rparr>)))"
| "step (PostErr detail) s =
     (if pending_posts s = 0 then s
      else commit (post_rejected detail (s\<lparr>pending_posts := pending_posts s - 1\<rparr>)))"
| "step (Tick i) s =
     (case find (\<lambda>t. timer_id t = i) (timers s) of
        None \<Rightarrow> s
      | Some t \<Rightarrow> commit (checkTaskStatus t s))"
| "step (GetOk k d) s =
     (if k < length (inflight_gets s)
      then commit (get_resolved d (s\<lparr>inflight_gets := drop_nth k (inflight_gets s)\<rparr>))
      else s)"
| "step (GetErr k) s =
     (if k < length (inflight_gets s)
      then commit (get_rejected (inflight_gets s ! k)
                     (s\<lparr>inflight_gets := drop_nth k (inflight_gets s)\<rparr>))
      else s)"

fun run :: "event list \<Rightarrow> vg \<Rightarrow> vg" where
  "run [] s = s"
| "run (e # es) s = run es (step e s)"

text \<open>
  The component after mounting: the \<open>useState\<close> defaults, and the first commit, in which
  all three effects run (interval ids of a browser start at 1).
\<close>

definition initial :: vg where
  "initial =
     \<lparr>prompt = [], provider = ''replicate'', settings = template_replicate,
      loading = False, error = [], taskId = None, taskStatus = None,
      generatedVideo = None, statusInterval = None, showAdvancedSettings = False,
      deps_provider = [], deps_taskId = None, deps_taskStatus = None,
      cleanup_statusInterval = None, timers = [], next_timer = 1, next_object = 0,
      pending_posts = 0, inflight_gets = [], requests = []\<rparr>"

definition mount :: vg where
  "mount =
     (let s = initial in
      (effect_terminal (taskStatus s) (statusInterval s)
         (effect_poll (taskId s) (statusInterval s) (effect_provider (provider s) s)))
       \<lparr>deps_provider := provider s, deps_taskId := taskId s,
        deps_taskStatus := taskStatus s\<rparr>)"

subsection \<open>What is rendered\<close>

text \<open>
  The submit button is \<open>disabled={loading || !prompt.trim()}\<close>; the prompt textarea,
  the provider select and the button that shows or hides the advanced settings are
  \<open>disabled={loading}\<close>.
\<close>

definition generate_disabled :: "vg \<Rightarrow> bool" where
  "generate_disabled s = (loading s \<or> trim (prompt s) = [])"

definition prompt_disabled :: "vg \<Rightarrow> bool" where
  "prompt_disabled s = loading s"

definition provider_disabled :: "vg \<Rightarrow> bool" where
  "provider_disabled s = loading s"

definition toggle_disabled :: "vg \<Rightarrow> bool" where
  "toggle_disabled s = loading s"

text \<open>
  \<open>renderSettings\<close>: nothing unless the advanced settings are shown; otherwise the
  inputs of the \<open>switch\<close> case of the provider, each given here by the setting it
  edits and by whether it is disabled. None of these inputs has a \<open>disabled\<close>
  attribute.
\<close>

definition settings_inputs :: "string \<Rightarrow> string list" where
  "settings_inputs p =
     (if p = ''replicate''
      then [''num_frames'', ''fps'', ''width'', ''height'', ''motion_bucket_id'']
      else if p = ''stability'' then [''duration'', ''width'', ''height'', ''cfg_scale'']
      else if p = ''runway'' then [''num_steps'', ''fps'']
      else [])"

definition renderSettings :: "vg \<Rightarrow> (string \<times> bool) list" where
  "renderSettings s =
     (if \<not> showAdvancedSettings s then []
      else map (\<lambda>k. (k, False)) (settings_inputs (provider s)))"

text \<open>\<open>{error && <div className="error-message">{error}</div>}\<close>\<close>

definition render_error :: "vg \<Rightarrow> string option" where
  "render_error s = (if error s = [] then None else Some (error s))"

text \<open>
  The error paragraph of \<open>renderGenerationStatus\<close>: the text after \<open>Erreur: \<close>, when
  the paragraph is rendered.
\<close>

definition render_generation_error :: "vg \<Rightarrow> string option" where
  "render_generation_error s =
     (if \<not> truthy_str (taskId s) then None
      else case taskStatus s of
             None \<Rightarrow> None
           | Some (_, d) \<Rightarrow>
               if status d = ''failed'' \<and> truthy_str (task_error d) then task_error d
               else None)"

text \<open>
  The result block \<open>{generatedVideo && (...)}\<close>: prompt, provider, and the \<open>videoId\<close>
  handed to the viewer.
\<close>

definition render_generated :: "vg \<Rightarrow> (string \<times> string \<times> string) option" where
  "render_generated s =
     (case generatedVideo s of
        None \<Rightarrow> None
      | Some v \<Rightarrow> Some (prompt s, provider s, file_id v))"

text \<open>
  What the browser lets through: a disabled control dispatches no event, so the form is
  submitted only while the button is enabled.
\<close>

fun ui_enabled :: "event \<Rightarrow> vg \<Rightarrow> bool" where
  "ui_enabled (ChangePrompt v) s = (\<not> loading s)"
| "ui_enabled (SelectProvider p) s = (\<not> loading s)"
| "ui_enabled ToggleAdvanced s = (\<not> loading s)"
| "ui_enabled Submit s = (\<not> generate_disabled s)"
| "ui_enabled e s = True"

fun ui_run :: "event list \<Rightarrow> vg \<Rightarrow> vg" where
  "ui_run [] s = s"
| "ui_run (e # es) s = ui_run es (if ui_enabled e s then step e s else s)"

section \<open>AIModal.js\<close>

text \<open>A \<open>File\<close> of the file input: its name and its declared MIME type.\<close>

record file_obj =
  file_name :: string
  file_type :: string

datatype modal_request =
    PostProcess string string
  | PostAnalyzeVideo string string string
  | PostUploadVideo file_obj

text \<open>
  The \<open>useState\<close> variables of the modal (prefixed with \<open>m_\<close>, the generator having
  variables of the same names), the prop \<open>isOpen\<close>, and the log of requests issued.
\<close>

record ai_modal =
  m_prompt :: string
  m_response :: string
  m_loading :: bool
  m_error :: string
  m_provider :: string
  m_video :: "video_ref option"
  m_showVideoViewer :: bool
  isOpen :: bool
  m_requests :: "modal_request list"

definition msg_no_api :: string where
  "msg_no_api = ''Communication avec l'' @ [CHR 0x27] @ ''API impossible''"

definition msg_invalid_video :: string where
  "msg_invalid_video =
     ''Veuillez s'' @ [CHR 0xE9] @ ''lectionner un fichier vid'' @ [CHR 0xE9] @ ''o valide.''"

definition msg_upload_failed :: string where
  "msg_upload_failed =
     ''Erreur lors de l'' @ [CHR 0x27] @ ''upload de la vid'' @ [CHR 0xE9]
       @ ''o. Veuillez r'' @ [CHR 0xE9] @ ''essayer.''"

definition handleSubmit :: "ai_modal \<Rightarrow> ai_modal" where
  "handleSubmit a =
     (if trim (m_prompt a) = [] then a
      else a\<lparr>m_loading := True, m_error := [],
             m_requests := m_requests a @
               [case m_video a of
                  None \<Rightarrow> PostProcess (m_prompt a) (m_provider a)
                | Some v \<Rightarrow> PostAnalyzeVideo (file_id v) (m_prompt a) (m_provider a)]\<rparr>)"

text \<open>The continuations of its \<open>await\<close>: \<open>try\<close> then \<open>finally\<close>, \<open>catch\<close> then \<open>finally\<close>.\<close>

definition submit_resolved :: "string \<Rightarrow> ai_modal \<Rightarrow> ai_modal" where
  "submit_resolved result a = a\<lparr>m_response := result, m_loading := False\<rparr>"

definition submit_rejected :: "string option \<Rightarrow> ai_modal \<Rightarrow> ai_modal" where
  "submit_rejected detail a =
     a\<lparr>m_error := ''Erreur: '' @ or_else detail msg_no_api, m_loading := False\<rparr>"

text \<open>\<open>handleVideoUpload\<close>; the argument is \<open>e.target.files[0]\<close>.\<close>

definition handleVideoUpload :: "file_obj option \<Rightarrow> ai_modal \<Rightarrow> ai_modal" where
  "handleVideoUpload f0 a =
     (case f0 of
        None \<Rightarrow> a
      | Some f \<Rightarrow>
          if \<not> prefix ''video/'' (file_type f) then a\<lparr>m_error := msg_invalid_video\<rparr>
          else a\<lparr>m_loading := True, m_error := [],
                 m_requests := m_requests a @ [PostUploadVideo f]\<rparr>)"

definition upload_resolved :: "video_ref \<Rightarrow> ai_modal \<Rightarrow> ai_modal" where
  "upload_resolved v a = a\<lparr>m_video := Some v, m_showVideoViewer := True, m_loading := False\<rparr>"

definition upload_rejected :: "ai_modal \<Rightarrow> ai_modal" where
  "upload_rejected a = a\<lparr>m_error := msg_upload_failed, m_loading := False\<rparr>"

text \<open>
  The error block of the modal: nothing is rendered while the modal is closed, and
  \<open>{error && ...}\<close> renders nothing for the empty string.
\<close>

definition m_render_error :: "ai_modal \<Rightarrow> string option" where
  "m_render_error a = (if isOpen a \<and> m_error a \<noteq> [] then Some (m_error a) else None)"

definition modal_initial :: "bool \<Rightarrow> ai_modal" where
  "modal_initial is_open =
     \<lparr>m_prompt = [], m_response = [], m_loading = False, m_error = [],
      m_provider = ''openai'', m_video = None, m_showVideoViewer = False,
      isOpen = is_open, m_requests = []\<rparr>"

section \<open>Invariants of the generator\<close>

fun is_get :: "request \<Rightarrow> bool" where
  "is_get (GetStatus t) = True"
| "is_get (PostGenerateVideo p q r) = False"

definition status_requests :: "vg \<Rightarrow> request list" where
  "status_requests s = filter is_get (requests s)"

fun is_post_ok :: "event \<Rightarrow> bool" where
  "is_post_ok (PostOk t) = True"
| "is_post_ok e = False"

text \<open>What no effect touches.\<close>

definition same_io :: "vg \<Rightarrow> vg \<Rightarrow> bool" where
  "same_io s u =
     (requests u = requests s \<and> loading u = loading s \<and> pending_posts u = pending_posts s \<and>
      prompt u = prompt s \<and> error u = error s \<and> provider u = provider s \<and>
      taskId u = taskId s \<and> taskStatus u = taskStatus s \<and>
      inflight_gets u = inflight_gets s \<and> next_object u = next_object s)"

text \<open>After a commit the recorded dependencies are the current values.\<close>

definition settled :: "vg \<Rightarrow> bool" where
  "settled s =
     (deps_provider s = provider s \<and> deps_taskId s = taskId s \<and>
      deps_taskStatus s = taskStatus s)"

text \<open>
  Every active timer is the one whose id is stored in \<open>statusInterval\<close>, there is at most
  one, and every callback (of a timer, or of a request in flight) closed over a falsy
  \<open>statusInterval\<close>.
\<close>

definition poll_inv :: "vg \<Rightarrow> bool" where
  "poll_inv s =
     (0 < next_timer s \<and> length (timers s) \<le> 1 \<and>
      list_all (\<lambda>t. timer_id t \<noteq> 0 \<and> statusInterval s = Some (timer_id t) \<and>
                     \<not> truthy_num (cb_statusInterval t)) (timers s) \<and>
      list_all (\<lambda>c. \<not> truthy_num c) (inflight_gets s))"

text \<open>The identity of the stored response object is older than the next one.\<close>

definition obj_inv :: "vg \<Rightarrow> bool" where
  "obj_inv s =
     (settled s \<and> (case taskStatus s of None \<Rightarrow> True | Some x \<Rightarrow> fst x < next_object s))"

fun is_post_err :: "event \<Rightarrow> bool" where
  "is_post_err (PostErr d) = True"
| "is_post_err e = False"

text \<open>
  While the form is driven through its controls: at most one generation request is
  unanswered, and only while the component is \<open>loading\<close>.
\<close>

definition post_inv :: "vg \<Rightarrow> bool" where
  "post_inv s = (pending_posts s = 0 \<or> pending_posts s = 1 \<and> loading s)"

text \<open>
  While the form is driven through its controls: polling (an active timer, or a status
  request in flight) happens only for a stored, truthy \<open>taskId\<close>, while \<open>loading\<close>,
  with no generation request unanswered.
\<close>

definition ui_inv :: "vg \<Rightarrow> bool" where
  "ui_inv s =
     (settled s \<and>
      (if timers s = [] \<and> inflight_gets s = [] then post_inv s
       else truthy_str (taskId s) \<and> loading s \<and> pending_posts s = 0))"

section \<open>Sample data\<close>

definition sample_video :: video_ref where
  "sample_video = \<lparr>file_id = ''f1'', filename = ''out.mp4''\<rparr>"

definition st_pending :: task_status where
  "st_pending = \<lparr>status = ''pending'', progress = 0, video_info = None, task_error = None\<rparr>"

definition st_running :: "rat \<Rightarrow> task_status" where
  "st_running p = \<lparr>status = ''running'', progress = p, video_info = None, task_error = None\<rparr>"

definition st_completed :: "video_ref \<Rightarrow> task_status" where
  "st_completed v =
     \<lparr>status = ''completed'', progress = 1, video_info = Some v, task_error = None\<rparr>"

definition st_failed :: "string \<Rightarrow> task_status" where
  "st_failed e = \<lparr>status = ''failed'', progress = 0, video_info = None, task_error = Some e\<rparr>"

text \<open>
  A submission of prompt \<open>p\<close>, accepted as task \<open>t\<close>, then four ticks of the first
  timer, each answered before the next: pending, running at 0.3, running at 0.7,
  completed with video \<open>v\<close>.
\<close>

definition scripted :: "string \<Rightarrow> string \<Rightarrow> video_ref \<Rightarrow> event list" where
  "scripted p t v =
     [ChangePrompt p, Submit, PostOk t,
      Tick 1, GetOk 0 st_pending,
      Tick 1, GetOk 0 (st_running (3 / 10)),
      Tick 1, GetOk 0 (st_running (7 / 10)),
      Tick 1, GetOk 0 (st_completed v)]"

text \<open>A submission accepted as task \<open>t1\<close>, one tick, and the status request failing.\<close>

definition poll_failure :: "event list" where
  "poll_failure = [ChangePrompt ''a cat'', Submit, PostOk ''t1'', Tick 1, GetErr 0]"

text \<open>
  Two status requests in flight, the second answered first (with \<open>running\<close>); and what
  may follow a terminal answer: the timer's id fires, the other answer arrives.
\<close>

definition overlapping :: "event list" where
  "overlapping =
     [ChangePrompt ''a cat'', Submit, PostOk ''t1'', Tick 1, Tick 1,
      GetOk 1 (st_running (1 / 2))]"

definition late_answers :: "event list" where
  "late_answers = [Tick 1, GetOk 0 st_pending, Tick 1]"

text \<open>
  Through the controls: a submission; and, once it is accepted, polling to completion
  followed by attempts to submit again, to edit the prompt, to show the advanced settings
  and to pick another provider.
\<close>

definition submitted :: "event list" where
  "submitted = [ChangePrompt ''a cat'', Submit]"

definition to_completion :: "event list" where
  "to_completion =
     [Tick 1, GetOk 0 st_pending, Tick 1, GetOk 0 (st_completed sample_video),
      Submit, ChangePrompt ''a dog'', ToggleAdvanced, SelectProvider Runway, Submit]"

text \<open>
  The advanced settings shown before a submission that is accepted and polled to
  completion; and an edit of the frame rate afterwards.
\<close>

definition settings_shown :: "event list" where
  "settings_shown = ToggleAdvanced # scripted ''a cat'' ''t1'' sample_video"

definition edit_fps :: "event list" where
  "edit_fps = [UpdateSetting ''fps'' 12]"

text \<open>A task accepted as \<open>t1\<close> whose first status request is still in flight.\<close>

definition first_poll :: "event list" where
  "first_poll = [ChangePrompt ''a cat'', Submit, PostOk ''t1'', Tick 1]"

text \<open>The modal, open, after the prompt \<open>hi\<close> was submitted.\<close>

definition modal_submitted :: ai_modal where
  "modal_submitted = handleSubmit ((modal_initial True)\<lparr>m_prompt := ''hi''\<rparr>)"

definition sample_image :: file_obj where
  "sample_image = \<lparr>file_name = ''cat.png'', file_type = ''image/png''\<rparr>"

section \<open>Properties of the commit\<close>

lemmas effect_defs = effect_poll_cleanup_def effect_poll_def effect_terminal_def
  effect_provider_def clearInterval_def

text \<open>The definitions a concrete run is evaluated with.\<close>

lemmas eval_defs = mount_def initial_def commit_def effect_defs Let_def truthy_str_def
  truthy_num_def handleGenerateVideo_def post_resolved_def post_rejected_def
  checkTaskStatus_def get_resolved_def get_rejected_def updateSetting_def
  drop_nth_def settingsTemplates_def template_replicate_def
  template_stability_def template_runway_def or_else_def sample_video_def st_pending_def
  st_running_def st_completed_def st_failed_def scripted_def poll_failure_def
  overlapping_def late_answers_def submitted_def to_completion_def first_poll_def
  settings_shown_def edit_fps_def

lemmas trim_defs = trim_def is_space_def

lemma trim_empty_iff: "trim p = [] \<longleftrightarrow> list_all is_space p"
proof -
  have a: "trim p = [] \<longleftrightarrow> (\<forall>x\<in>set (dropWhile is_space p). is_space x)"
    by (simp add: trim_def dropWhile_eq_Nil_conv)
  have b: "(\<forall>x\<in>set (dropWhile is_space p). is_space x) \<longleftrightarrow> dropWhile is_space p = []"
    using hd_dropWhile [of is_space p]
    by (cases "dropWhile is_space p") (auto dest: set_dropWhileD)
  have c: "dropWhile is_space p = [] \<longleftrightarrow> list_all is_space p"
    by (simp add: dropWhile_eq_Nil_conv list_all_iff)
  show ?thesis by (simp only: a b c)
qed

lemma same_io_refl: "same_io u u"
  by (simp add: same_io_def)

lemma same_io_trans: "same_io s u \<Longrightarrow> same_io u w \<Longrightarrow> same_io s w"
  by (simp add: same_io_def)

lemma same_io_cleanup: "same_io u (effect_poll_cleanup u)"
  by (simp add: effect_poll_cleanup_def same_io_refl split: option.split)
     (simp add: same_io_def clearInterval_def)

lemma same_io_provider: "same_io u (effect_provider p u)"
  by (simp add: same_io_def effect_provider_def)

lemma same_io_poll: "same_io u (effect_poll tid si u)"
  by (simp add: same_io_def effect_poll_def Let_def)

lemma same_io_terminal: "same_io u (effect_terminal ts si u)"
proof -
  have a: "same_io u ((clearInterval i u)\<lparr>statusInterval := None\<rparr>)" for i
    by (simp add: same_io_def clearInterval_def)
  have b: "same_io u (w\<lparr>generatedVideo := v\<rparr>)" if "same_io u w" for w v
    using that by (simp add: same_io_def)
  show ?thesis
    by (simp add: effect_terminal_def Let_def a b same_io_refl split: option.split prod.split)
qed

lemma same_io_commit: "same_io s (commit s)"
proof -
  define si where "si = statusInterval s"
  define s0 where "s0 = (if taskId s \<noteq> deps_taskId s then effect_poll_cleanup s else s)"
  define s1 where
    "s1 = (if provider s \<noteq> deps_provider s then effect_provider (provider s) s0 else s0)"
  define s2 where
    "s2 = (if taskId s \<noteq> deps_taskId s then effect_poll (taskId s) si s1 else s1)"
  define s3 where
    "s3 = (if taskStatus s \<noteq> deps_taskStatus s then effect_terminal (taskStatus s) si s2
           else s2)"
  have c: "commit s = s3\<lparr>deps_provider := provider s, deps_taskId := taskId s,
             deps_taskStatus := taskStatus s\<rparr>"
    by (simp add: commit_def Let_def s3_def s2_def s1_def s0_def si_def)
  have "same_io s s0" by (simp add: s0_def same_io_cleanup same_io_refl)
  moreover have "same_io s0 s1" by (simp add: s1_def same_io_provider same_io_refl)
  moreover have "same_io s1 s2" by (simp add: s2_def same_io_poll same_io_refl)
  moreover have "same_io s2 s3" by (simp add: s3_def same_io_terminal same_io_refl)
  ultimately have "same_io s s3" by (blast intro: same_io_trans)
  then show ?thesis by (simp add: c same_io_def)
qed

lemma commit_frame [simp]:
  "requests (commit s) = requests s"
  "loading (commit s) = loading s"
  "pending_posts (commit s) = pending_posts s"
  "prompt (commit s) = prompt s"
  "error (commit s) = error s"
  "provider (commit s) = provider s"
  "taskId (commit s) = taskId s"
  "taskStatus (commit s) = taskStatus s"
  "inflight_gets (commit s) = inflight_gets s"
  "next_object (commit s) = next_object s"
  using same_io_commit [of s] by (simp_all add: same_io_def)

lemma settled_commit [simp]: "settled (commit s)"
  by (simp add: settled_def) (simp add: commit_def Let_def)

lemma commit_settled: "settled s \<Longrightarrow> commit s = s"
  by (simp add: settled_def commit_def Let_def)

text \<open>The render that the effects of a commit trigger changes nothing further.\<close>

lemma commit_commit: "commit (commit s) = commit s"
  by (rule commit_settled) (rule settled_commit)

lemma settled_mount: "settled mount"
  by (simp add: settled_def mount_def initial_def effect_defs Let_def truthy_str_def)

lemma settled_step: "settled s \<Longrightarrow> settled (step e s)"
  by (cases e) (auto split: option.split)

lemma settled_run: "settled s \<Longrightarrow> settled (run es s)"
  by (induction es arbitrary: s) (simp_all add: settled_step)

lemma settings_frame [simp]:
  "settings (effect_poll_cleanup u) = settings u"
  "settings (effect_poll tid si u) = settings u"
  "settings (effect_terminal ts si u) = settings u"
  by (simp_all add: effect_defs Let_def split: option.split prod.split)

lemma settings_commit:
  "settings (commit s) =
     (if provider s \<noteq> deps_provider s
      then (case settingsTemplates (provider s) of Some t \<Rightarrow> t | None \<Rightarrow> template_replicate)
      else settings s)"
  by (simp add: commit_def Let_def) (simp add: effect_provider_def)

lemma timers_frame:
  "timers u = [] \<Longrightarrow> timers (effect_poll_cleanup u) = []"
  "timers (effect_provider p u) = timers u"
  "\<not> truthy_str tid \<Longrightarrow> timers (effect_poll tid si u) = timers u"
  "timers u = [] \<Longrightarrow> timers (effect_terminal ts si u) = []"
  by (simp_all add: effect_defs Let_def split: option.split prod.split)

lemma timers_commit_none:
  assumes "timers u = []" and "taskId u = deps_taskId u \<or> \<not> truthy_str (taskId u)"
  shows "timers (commit u) = []"
  using assms by (auto simp: commit_def Let_def timers_frame)

section \<open>The timer invariant\<close>

lemma poll_inv_cleanup: "poll_inv s \<Longrightarrow> poll_inv (effect_poll_cleanup s)"
  by (auto simp: poll_inv_def effect_poll_cleanup_def clearInterval_def list_all_iff
      split: option.split intro: le_trans [OF length_filter_le])

lemma cleanup_frame [simp]:
  "statusInterval (effect_poll_cleanup s) = statusInterval s"
  "next_timer (effect_poll_cleanup s) = next_timer s"
  "taskId (effect_poll_cleanup s) = taskId s"
  by (simp_all add: effect_poll_cleanup_def clearInterval_def split: option.split)

lemma poll_inv_provider: "poll_inv s \<Longrightarrow> poll_inv (effect_provider p s)"
  by (simp add: poll_inv_def effect_provider_def)

lemma provider_frame [simp]:
  "statusInterval (effect_provider p s) = statusInterval s"
  by (simp_all add: effect_provider_def)

lemma poll_inv_no_timer:
  assumes "poll_inv s" "\<not> truthy_num (statusInterval s)"
  shows "timers s = []"
proof (cases "timers s")
  case Nil then show ?thesis .
next
  case (Cons t ts)
  with assms show ?thesis by (auto simp: poll_inv_def truthy_num_def)
qed

lemma poll_inv_poll:
  assumes "poll_inv s" "statusInterval s = si"
  shows "poll_inv (effect_poll tid si s)"
proof (cases "truthy_str tid \<and> \<not> truthy_num si")
  case True
  with assms have "timers s = []" using poll_inv_no_timer by blast
  with True assms show ?thesis
    by (simp add: poll_inv_def effect_poll_def Let_def)
next
  case False
  then have "effect_poll tid si s = s\<lparr>cleanup_statusInterval := si\<rparr>"
    by (auto simp: effect_poll_def Let_def)
  with assms show ?thesis by (simp add: poll_inv_def)
qed

lemma poll_keeps_truthy:
  "statusInterval s = si \<Longrightarrow> truthy_num si \<Longrightarrow> statusInterval (effect_poll tid si s) = si"
  by (simp add: effect_poll_def Let_def)

lemma poll_inv_terminal:
  assumes "poll_inv s" "truthy_num si \<longrightarrow> statusInterval s = si"
  shows "poll_inv (effect_terminal ts si s)"
proof -
  have clr: "poll_inv ((clearInterval i s)\<lparr>statusInterval := None\<rparr>)"
    if "si = Some i" "i \<noteq> 0" for i
  proof -
    from that assms(2) have "statusInterval s = Some i" by (simp add: truthy_num_def)
    with assms(1) have "filter (\<lambda>t. timer_id t \<noteq> i) (timers s) = []"
      by (auto simp: poll_inv_def list_all_iff filter_empty_conv)
    with assms(1) show ?thesis by (simp add: poll_inv_def clearInterval_def)
  qed
  have gv: "poll_inv (u\<lparr>generatedVideo := v\<rparr>)" if "poll_inv u" for u v
    using that by (simp add: poll_inv_def)
  show ?thesis
    using assms(1) clr gv
    by (simp add: effect_terminal_def Let_def split: option.split prod.split)
qed

lemma poll_inv_commit: "poll_inv s \<Longrightarrow> poll_inv (commit s)"
proof -
  assume inv: "poll_inv s"
  define si where "si = statusInterval s"
  define s0 where "s0 = (if taskId s \<noteq> deps_taskId s then effect_poll_cleanup s else s)"
  define s1 where "s1 = (if provider s \<noteq> deps_provider s then effect_provider (provider s) s0 else s0)"
  define s2 where "s2 = (if taskId s \<noteq> deps_taskId s then effect_poll (taskId s) si s1 else s1)"
  define s3 where "s3 = (if taskStatus s \<noteq> deps_taskStatus s then effect_terminal (taskStatus s) si s2 else s2)"
  have c: "commit s = s3\<lparr>deps_provider := provider s, deps_taskId := taskId s, deps_taskStatus := taskStatus s\<rparr>"
    by (simp add: commit_def Let_def s3_def s2_def s1_def s0_def si_def)
  have i0: "poll_inv s0" and e0: "statusInterval s0 = si"
    using inv by (simp_all add: s0_def si_def poll_inv_cleanup)
  have i1: "poll_inv s1" and e1: "statusInterval s1 = si"
    using i0 e0 by (simp_all add: s1_def poll_inv_provider)
  have i2: "poll_inv s2" and e2: "truthy_num si \<longrightarrow> statusInterval s2 = si"
    using i1 e1 by (simp_all add: s2_def poll_inv_poll poll_keeps_truthy)
  have "poll_inv s3"
    using i2 e2 by (simp add: s3_def poll_inv_terminal)
  then show ?thesis by (simp add: c poll_inv_def)
qed

lemma poll_inv_mount: "poll_inv mount"
  by (simp add: mount_def initial_def poll_inv_def effect_defs truthy_str_def truthy_num_def
      Let_def)

lemma set_drop_nth: "set (drop_nth k xs) \<subseteq> set xs"
  unfolding drop_nth_def by (auto dest: in_set_takeD in_set_dropD)

lemma poll_inv_tick:
  assumes "poll_inv s" "find (\<lambda>t. timer_id t = i) (timers s) = Some t"
  shows "poll_inv (checkTaskStatus t s)"
proof -
  from assms(2) have "t \<in> set (timers s)"
    by (auto simp: find_Some_iff)
  with assms(1) have "\<not> truthy_num (cb_statusInterval t)"
    by (auto simp: poll_inv_def list_all_iff)
  with assms(1) show ?thesis
    by (simp add: poll_inv_def checkTaskStatus_def split: option.split)
qed

lemma poll_inv_drop:
  assumes "poll_inv s"
  shows "poll_inv (s\<lparr>inflight_gets := drop_nth k (inflight_gets s)\<rparr>)"
  using assms set_drop_nth [of k "inflight_gets s"]
  by (auto simp: poll_inv_def list_all_iff)

lemma falsy_closure:
  assumes "poll_inv s" "k < length (inflight_gets s)"
  shows "\<not> truthy_num (inflight_gets s ! k)"
  using assms by (auto simp: poll_inv_def list_all_iff)

lemma get_rejected_falsy:
  "\<not> truthy_num c \<Longrightarrow> get_rejected c s = s\<lparr>error := msg_status_check\<rparr>"
  by (auto simp: get_rejected_def truthy_num_def Let_def split: option.split)

lemma poll_inv_handlers:
  "poll_inv (s\<lparr>prompt := v\<rparr>) = poll_inv s"
  "poll_inv (s\<lparr>provider := q\<rparr>) = poll_inv s"
  "poll_inv (s\<lparr>pending_posts := n\<rparr>) = poll_inv s"
  "poll_inv (updateSetting key x s) = poll_inv s"
  "poll_inv (s\<lparr>showAdvancedSettings := b\<rparr>) = poll_inv s"
  "poll_inv (handleGenerateVideo s) = poll_inv s"
  "poll_inv (post_resolved t s) = poll_inv s"
  "poll_inv (post_rejected d s) = poll_inv s"
  by (simp_all add: poll_inv_def handleGenerateVideo_def post_resolved_def post_rejected_def
      updateSetting_def)

lemma poll_inv_step: "poll_inv s \<Longrightarrow> poll_inv (step e s)"
proof (cases e)
  case (Tick i)
  assume "poll_inv s"
  with Tick show ?thesis
    by (auto split: option.split intro: poll_inv_commit poll_inv_tick)
next
  case (GetOk k d)
  assume inv: "poll_inv s"
  have "poll_inv (get_resolved d (s\<lparr>inflight_gets := drop_nth k (inflight_gets s)\<rparr>))"
    using poll_inv_drop [OF inv, of k] by (simp add: poll_inv_def get_resolved_def)
  with GetOk inv show ?thesis by (simp add: poll_inv_commit)
next
  case (GetErr k)
  assume inv: "poll_inv s"
  show ?thesis
  proof (cases "k < length (inflight_gets s)")
    case True
    have "poll_inv (get_rejected (inflight_gets s ! k)
            (s\<lparr>inflight_gets := drop_nth k (inflight_gets s)\<rparr>))"
      using poll_inv_drop [OF inv, of k] falsy_closure [OF inv True]
      by (simp add: get_rejected_falsy poll_inv_def)
    with GetErr True show ?thesis by (simp add: poll_inv_commit)
  next
    case False
    with GetErr inv show ?thesis by simp
  qed
qed (simp_all add: poll_inv_commit poll_inv_handlers)

lemma poll_inv_run: "poll_inv s \<Longrightarrow> poll_inv (run es s)"
  by (induction es arbitrary: s) (simp_all add: poll_inv_step)

lemma obj_inv_mount: "obj_inv mount"
  by (simp add: obj_inv_def settled_mount) (simp add: eval_defs)

lemma obj_inv_step: "obj_inv s \<Longrightarrow> obj_inv (step e s)"
  by (cases e)
     (auto simp: obj_inv_def handleGenerateVideo_def post_resolved_def post_rejected_def
        updateSetting_def checkTaskStatus_def get_resolved_def get_rejected_def Let_def
        clearInterval_def
      split: option.split)

lemma obj_inv_run: "obj_inv s \<Longrightarrow> obj_inv (run es s)"
  by (induction es arbitrary: s) (simp_all add: obj_inv_step)

lemma terminal_clears:
  assumes "poll_inv u" and "status d = ''completed'' \<or> status d = ''failed''"
  shows "timers (effect_terminal (Some (i, d)) (statusInterval u) u) = []"
proof (cases "truthy_num (statusInterval u)")
  case True
  then obtain n where n: "statusInterval u = Some n" "n \<noteq> 0"
    by (auto simp: truthy_num_def split: option.splits)
  with assms(1) have "filter (\<lambda>t. timer_id t \<noteq> n) (timers u) = []"
    by (auto simp: poll_inv_def list_all_iff filter_empty_conv)
  with n assms(2) show ?thesis
    by (auto simp: effect_terminal_def clearInterval_def Let_def)
next
  case False
  with assms(1) have "timers u = []" by (rule poll_inv_no_timer)
  then show ?thesis by (simp add: timers_frame)
qed

lemma commit_terminal:
  assumes "poll_inv u" and "settled (u\<lparr>taskStatus := old\<rparr>)" and "taskStatus u = Some (i, d)"
    and "old \<noteq> Some (i, d)" and "status d = ''completed'' \<or> status d = ''failed''"
  shows "timers (commit u) = []"
proof -
  from assms(2) have deps: "deps_provider u = provider u" "deps_taskId u = taskId u"
    "deps_taskStatus u = old"
    by (simp_all add: settled_def)
  have "commit u = (effect_terminal (Some (i, d)) (statusInterval u) u)
          \<lparr>deps_provider := provider u, deps_taskId := taskId u,
           deps_taskStatus := Some (i, d)\<rparr>"
    using deps assms(3,4) by (simp add: commit_def Let_def)
  then show ?thesis
    using terminal_clears [OF assms(1,5)] by simp
qed

lemma get_ok_terminal:
  assumes "poll_inv s" and "obj_inv s" and "k < length (inflight_gets s)"
    and "status d = ''completed'' \<or> status d = ''failed''"
  shows "timers (step (GetOk k d) s) = []"
proof -
  let ?u = "get_resolved d (s\<lparr>inflight_gets := drop_nth k (inflight_gets s)\<rparr>)"
  have 1: "poll_inv ?u"
    using poll_inv_drop [OF assms(1), of k] by (simp add: poll_inv_def get_resolved_def)
  have 2: "settled (?u\<lparr>taskStatus := taskStatus s\<rparr>)"
    using assms(2) by (simp add: obj_inv_def settled_def get_resolved_def)
  have 3: "taskStatus ?u = Some (next_object s, d)"
    by (simp add: get_resolved_def)
  have 4: "taskStatus s \<noteq> Some (next_object s, d)"
    using assms(2) by (auto simp: obj_inv_def)
  show ?thesis
    using assms(3) commit_terminal [OF 1 2 3 4 assms(4)] by simp
qed

lemma idle_step:
  assumes "settled s" and "timers s = []" and "\<not> is_post_ok e"
  shows "timers (step e s) = [] \<and> status_requests (step e s) = status_requests s"
proof (cases e)
  case (PostOk t)
  with assms(3) show ?thesis by simp
next
  case Submit
  have "timers (commit (handleGenerateVideo s)) = []"
    using assms(1,2)
    by (intro timers_commit_none)
       (auto simp: handleGenerateVideo_def settled_def truthy_str_def)
  with Submit show ?thesis
    by (simp add: status_requests_def handleGenerateVideo_def)
next
  case (Tick i)
  with assms(2) show ?thesis by simp
qed (use assms(1,2) in \<open>auto simp: status_requests_def settled_def post_rejected_def
       updateSetting_def get_resolved_def get_rejected_def clearInterval_def Let_def
       intro!: timers_commit_none split: option.split\<close>)

lemma idle_run:
  assumes "settled s" and "timers s = []" and "list_all (\<lambda>e. \<not> is_post_ok e) es"
  shows "timers (run es s) = [] \<and> status_requests (run es s) = status_requests s"
  using assms
proof (induction es arbitrary: s)
  case Nil
  then show ?case by simp
next
  case (Cons e es)
  from Cons.prems have e: "\<not> is_post_ok e" and es: "list_all (\<lambda>e. \<not> is_post_ok e) es"
    by simp_all
  note st = idle_step [OF Cons.prems(1,2) e]
  have "settled (step e s)" using Cons.prems(1) by (rule settled_step)
  from Cons.IH [OF this conjunct1 [OF st] es] st show ?case by simp
qed

lemma get_err_step:
  assumes "poll_inv s" and "settled s" and "k < length (inflight_gets s)"
  shows "step (GetErr k) s =
           s\<lparr>inflight_gets := drop_nth k (inflight_gets s), error := msg_status_check\<rparr>"
proof -
  let ?u = "s\<lparr>inflight_gets := drop_nth k (inflight_gets s)\<rparr>"
  have "get_rejected (inflight_gets s ! k) ?u = ?u\<lparr>error := msg_status_check\<rparr>"
    using falsy_closure [OF assms(1,3)] by (rule get_rejected_falsy)
  moreover have "settled (?u\<lparr>error := msg_status_check\<rparr>)"
    using assms(2) by (simp add: settled_def)
  ultimately show ?thesis
    using assms(3) by (simp add: commit_settled)
qed

section \<open>Driven through the controls\<close>

lemma loading_step:
  assumes "loading s" and "\<not> is_post_err e"
  shows "loading (step e s)"
  using assms
  by (cases e)
     (auto simp: handleGenerateVideo_def post_resolved_def updateSetting_def
        checkTaskStatus_def get_resolved_def get_rejected_def clearInterval_def Let_def
      split: option.split)

lemma pending_step:
  assumes "pending_posts s = 0" and "e \<noteq> Submit"
  shows "pending_posts (step e s) = 0"
  using assms
  by (cases e)
     (auto simp: updateSetting_def checkTaskStatus_def get_resolved_def get_rejected_def
        clearInterval_def Let_def
      split: option.split)

lemma post_err_noop: "pending_posts s = 0 \<Longrightarrow> is_post_err e \<Longrightarrow> step e s = s"
  by (cases e) simp_all

lemma stuck_loading_step:
  assumes "loading s" and "pending_posts s = 0"
  shows "loading (if ui_enabled e s then step e s else s) \<and>
         pending_posts (if ui_enabled e s then step e s else s) = 0"
proof (cases "ui_enabled e s")
  case False
  with assms show ?thesis by simp
next
  case True
  with assms(1) have ns: "e \<noteq> Submit"
    by (auto simp: generate_disabled_def)
  show ?thesis
  proof (cases "is_post_err e")
    case True
    with assms post_err_noop [OF assms(2) True] show ?thesis by simp
  next
    case False
    with assms ns \<open>ui_enabled e s\<close> show ?thesis
      by (simp add: loading_step pending_step)
  qed
qed

lemma stuck_loading_run:
  assumes "loading s" and "pending_posts s = 0"
  shows "loading (ui_run es s) \<and> pending_posts (ui_run es s) = 0"
  using assms
proof (induction es arbitrary: s)
  case Nil
  then show ?case by simp
next
  case (Cons e es)
  from stuck_loading_step [OF Cons.prems, of e] Cons.IH show ?case by simp
qed

lemma post_inv_mount: "post_inv mount"
  by (simp add: post_inv_def eval_defs)

lemma post_inv_step:
  assumes "post_inv s"
  shows "post_inv (if ui_enabled e s then step e s else s)"
proof (cases "ui_enabled e s")
  case False
  with assms show ?thesis by simp
next
  case True
  with assms show ?thesis
    by (cases e)
       (auto simp: post_inv_def generate_disabled_def handleGenerateVideo_def
          post_resolved_def post_rejected_def updateSetting_def checkTaskStatus_def
          get_resolved_def get_rejected_def clearInterval_def Let_def
        split: option.split)
qed

lemma post_inv_run: "post_inv s \<Longrightarrow> post_inv (ui_run es s)"
proof (induction es arbitrary: s)
  case Nil
  then show ?case by simp
next
  case (Cons e es)
  from post_inv_step [OF Cons.prems, of e] Cons.IH show ?case by simp
qed

lemma ui_inv_mount: "ui_inv mount"
  by (simp add: ui_inv_def settled_mount post_inv_mount) (simp add: eval_defs)

lemma ui_inv_pending:
  "ui_inv s \<Longrightarrow> pending_posts s \<noteq> 0 \<Longrightarrow>
     timers s = [] \<and> inflight_gets s = [] \<and> pending_posts s = 1 \<and> loading s"
  by (auto simp: ui_inv_def post_inv_def split: if_splits)

lemma ui_inv_polling:
  "ui_inv s \<Longrightarrow> timers s \<noteq> [] \<or> inflight_gets s \<noteq> [] \<Longrightarrow>
     truthy_str (taskId s) \<and> loading s \<and> pending_posts s = 0"
  by (auto simp: ui_inv_def split: if_splits)

lemma ui_inv_step:
  assumes inv: "ui_inv s" and en: "ui_enabled e s"
  shows "ui_inv (step e s)"
proof -
  from inv have st: "settled s" by (simp add: ui_inv_def)
  show ?thesis
  proof (cases e)
    case (ChangePrompt v)
    with en have "\<not> loading s" by simp
    with inv have "timers s = []" "inflight_gets s = []" "post_inv s"
      by (auto simp: ui_inv_def split: if_splits)
    moreover have "commit (s\<lparr>prompt := v\<rparr>) = s\<lparr>prompt := v\<rparr>"
      using st by (intro commit_settled) (simp add: settled_def)
    ultimately show ?thesis
      using ChangePrompt st by (simp add: ui_inv_def settled_def post_inv_def)
  next
    case (SelectProvider p)
    with en have "\<not> loading s" by simp
    with inv have idle: "timers s = []" "inflight_gets s = []" "post_inv s"
      by (auto simp: ui_inv_def split: if_splits)
    have "timers (commit (s\<lparr>provider := option_value p\<rparr>)) = []"
      using idle(1) st by (intro timers_commit_none) (simp_all add: settled_def)
    with SelectProvider idle show ?thesis
      by (simp add: ui_inv_def post_inv_def)
  next
    case (UpdateSetting key x)
    have "commit (updateSetting key x s) = updateSetting key x s"
      using st by (intro commit_settled) (simp add: settled_def updateSetting_def)
    with UpdateSetting inv show ?thesis
      by (auto simp: ui_inv_def settled_def updateSetting_def post_inv_def split: if_splits)
  next
    case ToggleAdvanced
    let ?u = "s\<lparr>showAdvancedSettings := \<not> showAdvancedSettings s\<rparr>"
    have "commit ?u = ?u"
      using st by (intro commit_settled) (simp add: settled_def)
    with ToggleAdvanced inv show ?thesis
      by (auto simp: ui_inv_def settled_def post_inv_def split: if_splits)
  next
    case Submit
    with en have ok: "\<not> loading s" "trim (prompt s) \<noteq> []"
      by (simp_all add: generate_disabled_def)
    with inv have idle: "timers s = []" "inflight_gets s = []" "pending_posts s = 0"
      by (auto simp: ui_inv_def post_inv_def split: if_splits)
    have "timers (commit (handleGenerateVideo s)) = []"
      using idle(1) ok
      by (intro timers_commit_none) (simp_all add: handleGenerateVideo_def truthy_str_def)
    with Submit idle ok show ?thesis
      by (simp add: ui_inv_def post_inv_def handleGenerateVideo_def)
  next
    case (PostOk t)
    show ?thesis
    proof (cases "pending_posts s = 0")
      case True
      with PostOk inv show ?thesis by simp
    next
      case False
      from ui_inv_pending [OF inv False]
      have idle: "timers s = []" "inflight_gets s = []" "pending_posts s = 1" "loading s"
        by simp_all
      let ?u = "post_resolved t (s\<lparr>pending_posts := pending_posts s - 1\<rparr>)"
      have "timers (commit ?u) = []" if "\<not> truthy_str (Some t)"
        using idle(1) that by (intro timers_commit_none) (simp_all add: post_resolved_def)
      then have "timers (commit ?u) = [] \<or> truthy_str (Some t)" by blast
      with PostOk idle show ?thesis
        by (auto simp: ui_inv_def post_inv_def post_resolved_def)
    qed
  next
    case (PostErr d)
    show ?thesis
    proof (cases "pending_posts s = 0")
      case True
      with PostErr inv show ?thesis by simp
    next
      case False
      from ui_inv_pending [OF inv False]
      have idle: "timers s = []" "inflight_gets s = []" "pending_posts s = 1" "loading s"
        by simp_all
      let ?u = "post_rejected d (s\<lparr>pending_posts := pending_posts s - 1\<rparr>)"
      have "commit ?u = ?u"
        using st by (intro commit_settled) (simp add: settled_def post_rejected_def)
      with PostErr idle st show ?thesis
        by (simp add: ui_inv_def post_inv_def post_rejected_def settled_def)
    qed
  next
    case (Tick i)
    show ?thesis
    proof (cases "find (\<lambda>t. timer_id t = i) (timers s)")
      case None
      with Tick inv show ?thesis by simp
    next
      case (Some t)
      then have "timers s \<noteq> []" by auto
      with ui_inv_polling [OF inv]
      have p: "truthy_str (taskId s)" "loading s" "pending_posts s = 0" by simp_all
      have "commit (checkTaskStatus t s) = checkTaskStatus t s"
        using st by (intro commit_settled)
          (simp add: settled_def checkTaskStatus_def split: option.split)
      with Tick Some p st \<open>timers s \<noteq> []\<close> show ?thesis
        by (simp add: ui_inv_def settled_def checkTaskStatus_def split: option.split)
    qed
  next
    case (GetOk k d)
    show ?thesis
    proof (cases "k < length (inflight_gets s)")
      case False
      with GetOk inv show ?thesis by simp
    next
      case True
      then have "inflight_gets s \<noteq> []" by auto
      with ui_inv_polling [OF inv]
      have p: "truthy_str (taskId s)" "loading s" "pending_posts s = 0" by simp_all
      with GetOk True show ?thesis
        by (simp add: ui_inv_def post_inv_def get_resolved_def)
    qed
  next
    case (GetErr k)
    show ?thesis
    proof (cases "k < length (inflight_gets s)")
      case False
      with GetErr inv show ?thesis by simp
    next
      case True
      then have "inflight_gets s \<noteq> []" by auto
      with ui_inv_polling [OF inv]
      have p: "truthy_str (taskId s)" "loading s" "pending_posts s = 0" by simp_all
      with GetErr True show ?thesis
        by (simp add: ui_inv_def post_inv_def get_rejected_def clearInterval_def Let_def
            split: option.split)
    qed
  qed
qed

lemma ui_inv_run: "ui_inv s \<Longrightarrow> ui_inv (ui_run es s)"
proof (induction es arbitrary: s)
  case Nil
  then show ?case by simp
next
  case (Cons e es)
  have "ui_inv (if ui_enabled e s then step e s else s)"
    using Cons.prems by (simp add: ui_inv_step)
  with Cons.IH show ?case by simp
qed

lemma ui_run_is_run: "\<exists>es'. ui_run es s = run es' s"
proof (induction es arbitrary: s)
  case Nil
  have "ui_run [] s = run [] s" by simp
  then show ?case by blast
next
  case (Cons e es)
  show ?case
  proof (cases "ui_enabled e s")
    case True
    from Cons.IH [of "step e s"] obtain es' where "ui_run es (step e s) = run es' (step e s)"
      by blast
    with True have "ui_run (e # es) s = run (e # es') s" by simp
    then show ?thesis by blast
  next
    case False
    from Cons.IH [of s] obtain es' where "ui_run es s = run es' s" by blast
    with False have "ui_run (e # es) s = run es' s" by simp
    then show ?thesis by blast
  qed
qed

lemma ui_reachable:
  "poll_inv (ui_run es mount)" "obj_inv (ui_run es mount)" "settled (ui_run es mount)"
proof -
  obtain es' where "ui_run es mount = run es' mount"
    using ui_run_is_run by blast
  then show "poll_inv (ui_run es mount)" "obj_inv (ui_run es mount)"
    "settled (ui_run es mount)"
    by (simp_all add: poll_inv_run poll_inv_mount obj_inv_run obj_inv_mount settled_run
        settled_mount)
qed

lemma requests_step:
  assumes "timers s = []" and "e \<noteq> Submit"
  shows "requests (step e s) = requests s"
  using assms
  by (cases e)
     (auto simp: post_resolved_def post_rejected_def updateSetting_def get_resolved_def
        get_rejected_def clearInterval_def Let_def
      split: option.split)

lemma quiet_step:
  assumes "settled s" and "timers s = []" and "loading s" and "pending_posts s = 0"
  shows "timers (if ui_enabled e s then step e s else s) = [] \<and>
         requests (if ui_enabled e s then step e s else s) = requests s"
proof (cases "ui_enabled e s")
  case False
  with assms show ?thesis by simp
next
  case True
  with assms(3) have ns: "e \<noteq> Submit"
    by (auto simp: generate_disabled_def)
  have "timers (step e s) = []"
  proof (cases "is_post_ok e")
    case True
    with assms(2,4) show ?thesis by (cases e) simp_all
  next
    case False
    with idle_step [OF assms(1,2)] show ?thesis by blast
  qed
  with True requests_step [OF assms(2) ns] show ?thesis by simp
qed

lemma quiet_run:
  assumes "settled s" and "timers s = []" and "loading s" and "pending_posts s = 0"
  shows "timers (ui_run es s) = [] \<and> requests (ui_run es s) = requests s"
  using assms
proof (induction es arbitrary: s)
  case Nil
  then show ?case by simp
next
  case (Cons e es)
  let ?s' = "if ui_enabled e s then step e s else s"
  have 1: "settled ?s'"
    using Cons.prems(1) by (simp add: settled_step)
  note 2 = quiet_step [OF Cons.prems, of e]
  note 3 = stuck_loading_step [OF Cons.prems(3,4), of e]
  from Cons.IH [OF 1 conjunct1 [OF 2] conjunct1 [OF 3] conjunct2 [OF 3]] 2
  show ?case by simp
qed

section \<open>The polling timer\<close>

text \<open>
  C2: for every sequence of events of a mounted generator (submissions, answers to the
  generation request, timer ticks, answers to status requests in any order, edits), at
  most one interval is active afterwards; submissions made while a task is still
  polling are among these sequences.
\<close>

theorem C2_at_most_one_timer: "length (timers (run es mount)) \<le> 1"
  using poll_inv_run [OF poll_inv_mount, of es] by (simp add: poll_inv_def)

text \<open>A second submission while the first task is polling, and its answer.\<close>

theorem C2_at_most_one_timer_witness:
  "length (timers (run [ChangePrompt ''a cat'', Submit, PostOk ''t1'', Tick 1,
                        Submit, Tick 1, PostOk ''t2''] mount)) \<le> 1"
  by (rule C2_at_most_one_timer)

text \<open>
  C1: drive a mounted generator through its controls. When the answer to a status
  request carries the status \<open>completed\<close> or \<open>failed\<close> and is applied to the state,
  no interval is active afterwards, and whatever happens later (ticks of dead timers,
  late answers to other status requests, attempts to submit) no request is issued any
  more.
\<close>

theorem C1_terminal_status_stops_polling:
  assumes "k < length (inflight_gets (ui_run es mount))"
    and "status d = ''completed'' \<or> status d = ''failed''"
  shows "map_option snd (taskStatus (step (GetOk k d) (ui_run es mount))) = Some d \<and>
         timers (step (GetOk k d) (ui_run es mount)) = [] \<and>
         timers (ui_run es' (step (GetOk k d) (ui_run es mount))) = [] \<and>
         requests (ui_run es' (step (GetOk k d) (ui_run es mount)))
           = requests (step (GetOk k d) (ui_run es mount))"
proof -
  let ?s = "ui_run es mount"
  let ?s' = "step (GetOk k d) ?s"
  have t: "timers ?s' = []"
    using ui_reachable(1,2) assms by (rule get_ok_terminal)
  have st: "settled ?s'"
    using ui_reachable(3) by (rule settled_step)
  have "ui_inv ?s"
    using ui_inv_mount by (rule ui_inv_run)
  moreover from assms(1) have "inflight_gets ?s \<noteq> []" by auto
  ultimately have "loading ?s" "pending_posts ?s = 0"
    using ui_inv_polling by blast+
  with assms(1) have l: "loading ?s'" and p: "pending_posts ?s' = 0"
    by (simp_all add: get_resolved_def)
  from quiet_run [OF st t l p, of es'] t assms(1) show ?thesis
    by (simp add: get_resolved_def)
qed

theorem C1_terminal_status_stops_polling_witness:
  "0 < length (inflight_gets (ui_run overlapping mount)) \<and>
   status (st_failed ''out of memory'') = ''failed'' \<and>
   timers (step (GetOk 0 (st_failed ''out of memory'')) (ui_run overlapping mount)) = [] \<and>
   requests (ui_run late_answers
      (step (GetOk 0 (st_failed ''out of memory'')) (ui_run overlapping mount)))
     = [PostGenerateVideo ''a cat'' ''replicate'' template_replicate,
        GetStatus ''t1'', GetStatus ''t1'']"
proof -
  have a: "0 < length (inflight_gets (ui_run overlapping mount))"
    by (simp add: eval_defs trim_defs generate_disabled_def)
  have b: "status (st_failed ''out of memory'') = ''completed'' \<or>
           status (st_failed ''out of memory'') = ''failed''"
    by (simp add: st_failed_def)
  have d: "requests (step (GetOk 0 (st_failed ''out of memory''))
             (ui_run overlapping mount))
           = [PostGenerateVideo ''a cat'' ''replicate'' template_replicate,
              GetStatus ''t1'', GetStatus ''t1'']"
    by (simp add: eval_defs trim_defs generate_disabled_def)
  have e: "status (st_failed ''out of memory'') = ''failed''"
    by (simp add: st_failed_def)
  from C1_terminal_status_stops_polling [OF a b, of late_answers] d
  have "timers (step (GetOk 0 (st_failed ''out of memory'')) (ui_run overlapping mount)) = []"
    and "requests (ui_run late_answers
           (step (GetOk 0 (st_failed ''out of memory'')) (ui_run overlapping mount)))
         = [PostGenerateVideo ''a cat'' ''replicate'' template_replicate,
            GetStatus ''t1'', GetStatus ''t1'']"
    by (simp_all only:)
  with a e show ?thesis by (intro conjI)
qed

text \<open>
  The same for handlers invoked in any order (a submission while the button is disabled
  included), as long as no further generation request is accepted.
\<close>

lemma terminal_status_any_order:
  assumes "k < length (inflight_gets (run es mount))"
    and "status d = ''completed'' \<or> status d = ''failed''"
    and "list_all (\<lambda>e. \<not> is_post_ok e) es'"
  shows "map_option snd (taskStatus (step (GetOk k d) (run es mount))) = Some d \<and>
         timers (step (GetOk k d) (run es mount)) = [] \<and>
         timers (run es' (step (GetOk k d) (run es mount))) = [] \<and>
         status_requests (run es' (step (GetOk k d) (run es mount)))
           = status_requests (step (GetOk k d) (run es mount))"
proof -
  let ?s = "run es mount"
  have inv: "poll_inv ?s" "obj_inv ?s" "settled ?s"
    by (simp_all add: poll_inv_run poll_inv_mount obj_inv_run obj_inv_mount settled_run
        settled_mount)
  have t: "timers (step (GetOk k d) ?s) = []"
    using inv(1,2) assms(1,2) by (rule get_ok_terminal)
  have "settled (step (GetOk k d) ?s)"
    using inv(3) by (rule settled_step)
  from idle_run [OF this t assms(3)] t assms(1) show ?thesis
    by (simp add: get_resolved_def)
qed

lemma scripted_ui_run:
  assumes "trim p \<noteq> []" and "t \<noteq> []"
  shows "ui_run (scripted p t v) mount =
           mount\<lparr>prompt := p, loading := True, taskId := Some t,
                 taskStatus := Some (3, st_completed v), generatedVideo := Some v,
                 deps_taskId := Some t, deps_taskStatus := Some (3, st_completed v),
                 next_timer := 2, next_object := 4,
                 requests := [PostGenerateVideo p ''replicate'' template_replicate,
                              GetStatus t, GetStatus t, GetStatus t, GetStatus t]\<rparr>"
  using assms by (simp add: eval_defs generate_disabled_def)

text \<open>
  C5: after a submission (any prompt that is not blank, any task id that is not empty)
  followed by the answers pending, running at 0.3, running at 0.7 and completed with a
  video, \<open>generatedVideo\<close> is that video and the result block shows it; one generation
  request and four status requests were issued, none is in flight, no interval is
  active, and whatever happens later through the controls, no further request is
  issued.
\<close>

theorem C5_scripted_run_completes:
  assumes "trim p \<noteq> []" and "t \<noteq> []"
  shows "generatedVideo (ui_run (scripted p t v) mount) = Some v \<and>
         render_generated (ui_run (scripted p t v) mount)
           = Some (p, ''replicate'', file_id v) \<and>
         requests (ui_run (scripted p t v) mount) =
           [PostGenerateVideo p ''replicate'' template_replicate,
            GetStatus t, GetStatus t, GetStatus t, GetStatus t] \<and>
         inflight_gets (ui_run (scripted p t v) mount) = [] \<and>
         timers (ui_run (scripted p t v) mount) = [] \<and>
         requests (ui_run es (ui_run (scripted p t v) mount)) =
           [PostGenerateVideo p ''replicate'' template_replicate,
            GetStatus t, GetStatus t, GetStatus t, GetStatus t]"
proof -
  let ?s = "ui_run (scripted p t v) mount"
  note r = scripted_ui_run [OF assms, of v]
  have m: "timers mount = []" "inflight_gets mount = []" "provider mount = ''replicate''"
    "pending_posts mount = 0"
    by (simp_all add: eval_defs)
  have q: "timers ?s = []" "inflight_gets ?s = []" "loading ?s" "pending_posts ?s = 0"
    by (simp_all add: r m)
  have "settled ?s"
    by (rule ui_reachable)
  from quiet_run [OF this q(1,3,4), of es]
  have "requests (ui_run es ?s) = requests ?s" by simp
  then show ?thesis
    using q by (simp add: r render_generated_def m)
qed

theorem C5_scripted_run_completes_witness:
  "trim ''a cat'' \<noteq> [] \<and> ''t1'' \<noteq> [] \<and>
   generatedVideo (ui_run (scripted ''a cat'' ''t1'' sample_video) mount)
     = Some sample_video \<and>
   render_generated (ui_run (scripted ''a cat'' ''t1'' sample_video) mount)
     = Some (''a cat'', ''replicate'', ''f1'') \<and>
   timers (ui_run (scripted ''a cat'' ''t1'' sample_video) mount) = [] \<and>
   requests (ui_run late_answers (ui_run (scripted ''a cat'' ''t1'' sample_video) mount))
     = [PostGenerateVideo ''a cat'' ''replicate'' template_replicate,
        GetStatus ''t1'', GetStatus ''t1'', GetStatus ''t1'', GetStatus ''t1'']"
proof -
  have a: "trim ''a cat'' \<noteq> []"
    by (simp add: trim_defs)
  have b: "''t1'' \<noteq> []"
    by simp
  have d: "file_id sample_video = ''f1''"
    by (simp add: sample_video_def)
  from C5_scripted_run_completes [OF a b, of sample_video late_answers] a d show ?thesis
    by simp
qed

text \<open>
  On every reachable state, a failing status request leaves the active timers and the
  stored \<open>statusInterval\<close> as they were: the \<open>statusInterval\<close> tested in the \<open>catch\<close>
  block is the one of the render that started the interval, which is falsy.
\<close>

lemma poll_error_keeps_timer:
  assumes "k < length (inflight_gets (run es mount))"
  shows "timers (step (GetErr k) (run es mount)) = timers (run es mount) \<and>
         statusInterval (step (GetErr k) (run es mount)) = statusInterval (run es mount) \<and>
         taskStatus (step (GetErr k) (run es mount)) = taskStatus (run es mount) \<and>
         error (step (GetErr k) (run es mount)) = msg_status_check"
proof -
  have "poll_inv (run es mount)" "settled (run es mount)"
    by (simp_all add: poll_inv_run poll_inv_mount settled_run settled_mount)
  from get_err_step [OF this assms] show ?thesis by simp
qed

text \<open>
  C4, evaluated on the run \<open>poll_failure\<close> (a task accepted as \<open>t1\<close>, one tick, the
  status request failing): the error message is displayed and \<open>taskStatus\<close> is
  unchanged, but the interval is still active, \<open>statusInterval\<close> still holds its id,
  and the next tick issues a further status request.
\<close>

theorem C4_poll_error_leaves_timer_running:
  "render_error (ui_run poll_failure mount) = Some msg_status_check \<and>
   taskStatus (ui_run poll_failure mount) = None \<and>
   timers (ui_run poll_failure mount)
     = [\<lparr>timer_id = 1, cb_taskId = Some ''t1'', cb_statusInterval = None\<rparr>] \<and>
   statusInterval (ui_run poll_failure mount) = Some 1 \<and>
   requests (ui_run poll_failure mount)
     = [PostGenerateVideo ''a cat'' ''replicate'' template_replicate, GetStatus ''t1''] \<and>
   requests (ui_run [Tick 1] (ui_run poll_failure mount))
     = [PostGenerateVideo ''a cat'' ''replicate'' template_replicate, GetStatus ''t1'',
        GetStatus ''t1'']"
  by (simp add: eval_defs trim_defs generate_disabled_def render_error_def
      msg_status_check_def)

section \<open>Submissions\<close>

text \<open>
  C7: a submission whose prompt is empty or consists only of white space issues no
  request, neither in the generator (the request log and the number of unanswered
  generation requests are unchanged) nor in the modal.
\<close>

theorem C7_blank_prompt_no_request:
  assumes "list_all is_space (prompt s)" and "list_all is_space (m_prompt a)"
  shows "requests (step Submit s) = requests s \<and>
         pending_posts (step Submit s) = pending_posts s \<and>
         m_requests (handleSubmit a) = m_requests a"
  using assms by (simp add: trim_empty_iff [symmetric] handleGenerateVideo_def handleSubmit_def)

theorem C7_blank_prompt_no_request_witness:
  "list_all is_space (prompt (step (ChangePrompt [CHR '' '', CHR 0x09]) mount)) \<and>
   list_all is_space (m_prompt (modal_initial True)) \<and>
   requests (step Submit (step (ChangePrompt [CHR '' '', CHR 0x09]) mount)) =
     requests (step (ChangePrompt [CHR '' '', CHR 0x09]) mount) \<and>
   pending_posts (step Submit (step (ChangePrompt [CHR '' '', CHR 0x09]) mount)) =
     pending_posts (step (ChangePrompt [CHR '' '', CHR 0x09]) mount) \<and>
   m_requests (handleSubmit (modal_initial True)) = m_requests (modal_initial True)"
proof -
  have a: "list_all is_space (prompt (step (ChangePrompt [CHR '' '', CHR 0x09]) mount))"
    by (simp add: is_space_def)
  have b: "list_all is_space (m_prompt (modal_initial True))"
    by (simp add: modal_initial_def)
  show ?thesis
    using a b C7_blank_prompt_no_request [OF a b] by simp
qed

text \<open>The button lets the form be submitted only with a prompt that is not blank.\<close>

lemma dispatched_submission_not_blank:
  "ui_enabled Submit s \<Longrightarrow> trim (prompt s) \<noteq> [] \<and> prompt s \<noteq> []"
  by (auto simp: generate_disabled_def trim_def)

text \<open>
  C3: a submission whose prompt passes the guard of the handler (it is not blank, as for
  every submission the button lets through) leaves \<open>taskId\<close>, \<open>taskStatus\<close> and
  \<open>generatedVideo\<close> null in the state in which the generation request is in flight,
  whatever they were before; the request carries the prompt, provider and settings of
  the render; the task id of the answer is stored only when the answer arrives.
\<close>

theorem C3_submission_clears_task_state:
  assumes "trim (prompt s) \<noteq> []"
  shows "taskId (step Submit s) = None \<and> taskStatus (step Submit s) = None \<and>
         generatedVideo (step Submit s) = None \<and>
         requests (step Submit s) =
           requests s @ [PostGenerateVideo (prompt s) (provider s) (settings s)] \<and>
         pending_posts (step Submit s) = Suc (pending_posts s) \<and>
         taskId (step (PostOk task_id) (step Submit s)) = Some task_id"
proof -
  let ?h = "handleGenerateVideo s"
  have h: "taskId ?h = None" "taskStatus ?h = None" "generatedVideo ?h = None"
    using assms by (simp_all add: handleGenerateVideo_def)
  have "generatedVideo (commit ?h) = None"
    using h by (simp add: commit_def Let_def effect_defs split: option.split)
  moreover have "taskId (step (PostOk task_id) (step Submit s)) = Some task_id"
    using assms by (simp add: handleGenerateVideo_def post_resolved_def)
  ultimately show ?thesis
    using assms by (simp add: handleGenerateVideo_def)
qed

theorem C3_submission_clears_task_state_witness:
  "trim (prompt (run (scripted ''a cat'' ''t1'' sample_video) mount)) \<noteq> [] \<and>
   generatedVideo (run (scripted ''a cat'' ''t1'' sample_video) mount) = Some sample_video \<and>
   taskId (step Submit (run (scripted ''a cat'' ''t1'' sample_video) mount)) = None \<and>
   taskStatus (step Submit (run (scripted ''a cat'' ''t1'' sample_video) mount)) = None \<and>
   generatedVideo (step Submit (run (scripted ''a cat'' ''t1'' sample_video) mount)) = None"
proof -
  have a: "trim (prompt (run (scripted ''a cat'' ''t1'' sample_video) mount)) \<noteq> []"
    by (simp add: eval_defs trim_defs)
  have b: "generatedVideo (run (scripted ''a cat'' ''t1'' sample_video) mount)
            = Some sample_video"
    by (simp add: eval_defs trim_defs)
  show ?thesis
    using a b C3_submission_clears_task_state [OF a] by simp
qed

text \<open>
  C10 as stated fails for the inputs of the advanced settings. With the settings shown
  before the submission, after the generation request has succeeded and the task has
  completed, \<open>loading\<close> is true and the submit button is disabled, but the five
  settings inputs are rendered without being disabled, and an edit of the frame rate
  goes through and changes the settings.
\<close>

theorem C10_settings_inputs_counterexample:
  "loading (ui_run settings_shown mount) \<and>
   taskId (ui_run settings_shown mount) = Some ''t1'' \<and>
   generate_disabled (ui_run settings_shown mount) \<and>
   renderSettings (ui_run settings_shown mount)
     = [(''num_frames'', False), (''fps'', False), (''width'', False), (''height'', False),
        (''motion_bucket_id'', False)] \<and>
   ui_enabled (UpdateSetting ''fps'' 12) (ui_run settings_shown mount) \<and>
   settings (ui_run settings_shown mount)
     = [(''num_frames'', 24), (''fps'', 8), (''width'', 576), (''height'', 320),
        (''motion_bucket_id'', 127)] \<and>
   settings (ui_run edit_fps (ui_run settings_shown mount))
     = [(''num_frames'', 24), (''fps'', 12), (''width'', 576), (''height'', 320),
        (''motion_bucket_id'', 127)]"
  by (simp add: eval_defs trim_defs generate_disabled_def renderSettings_def
      settings_inputs_def)

lemma settings_inputs_enabled: "list_all (\<lambda>x. \<not> snd x) (renderSettings s)"
  by (simp add: renderSettings_def list_all_iff)

text \<open>
  C10, amended: drive a mounted generator through its controls. If the generation
  request in flight is answered successfully, then \<open>loading\<close> is true after every later
  sequence of events (status answers of any kind included), so the submit button, the
  prompt textarea, the provider select and the button of the advanced settings stay
  disabled; the inputs of the advanced settings are never disabled. In any state
  whatsoever, an event that turns \<open>loading\<close> from true to false is a failed generation
  request; and a failed generation request in flight does turn it to false.
\<close>

theorem C10_loading_never_reset_after_success:
  assumes "pending_posts (ui_run es mount) \<noteq> 0"
  shows "loading (ui_run es' (step (PostOk task_id) (ui_run es mount))) \<and>
         generate_disabled (ui_run es' (step (PostOk task_id) (ui_run es mount))) \<and>
         prompt_disabled (ui_run es' (step (PostOk task_id) (ui_run es mount))) \<and>
         provider_disabled (ui_run es' (step (PostOk task_id) (ui_run es mount))) \<and>
         toggle_disabled (ui_run es' (step (PostOk task_id) (ui_run es mount))) \<and>
         list_all (\<lambda>x. \<not> snd x)
           (renderSettings (ui_run es' (step (PostOk task_id) (ui_run es mount)))) \<and>
         (loading s \<and> \<not> loading (step e s) \<longrightarrow> is_post_err e) \<and>
         \<not> loading (step (PostErr detail) (ui_run es mount))"
proof -
  let ?s = "ui_run es mount"
  have "post_inv ?s"
    using post_inv_mount by (rule post_inv_run)
  with assms have p: "pending_posts ?s = 1" "loading ?s"
    by (auto simp: post_inv_def)
  then have "loading (step (PostOk task_id) ?s)" "pending_posts (step (PostOk task_id) ?s) = 0"
    by (simp_all add: post_resolved_def)
  from stuck_loading_run [OF this, of es'] have
    "loading (ui_run es' (step (PostOk task_id) ?s))" by simp
  moreover have "\<not> loading (step (PostErr detail) ?s)"
    using p by (simp add: post_rejected_def)
  ultimately show ?thesis
    using loading_step [of s e]
    by (auto simp: generate_disabled_def prompt_disabled_def provider_disabled_def
        toggle_disabled_def settings_inputs_enabled)
qed

theorem C10_loading_never_reset_after_success_witness:
  "pending_posts (ui_run submitted mount) \<noteq> 0 \<and>
   loading (ui_run to_completion (step (PostOk ''t1'') (ui_run submitted mount))) \<and>
   generatedVideo (ui_run to_completion (step (PostOk ''t1'') (ui_run submitted mount)))
     = Some sample_video \<and>
   generate_disabled
     (ui_run to_completion (step (PostOk ''t1'') (ui_run submitted mount))) \<and>
   prompt_disabled
     (ui_run to_completion (step (PostOk ''t1'') (ui_run submitted mount))) \<and>
   provider_disabled
     (ui_run to_completion (step (PostOk ''t1'') (ui_run submitted mount))) \<and>
   toggle_disabled
     (ui_run to_completion (step (PostOk ''t1'') (ui_run submitted mount))) \<and>
   \<not> loading (step (PostErr None) (ui_run submitted mount))"
proof -
  have a: "pending_posts (ui_run submitted mount) \<noteq> 0"
    by (simp add: eval_defs trim_defs generate_disabled_def)
  have b: "generatedVideo
             (ui_run to_completion (step (PostOk ''t1'') (ui_run submitted mount)))
           = Some sample_video"
    by (simp add: eval_defs trim_defs generate_disabled_def)
  from C10_loading_never_reset_after_success [OF a, of to_completion "''t1''"
      "ui_run submitted mount" "PostErr None" None] a b
  show ?thesis by (intro conjI) simp_all
qed

section \<open>Provider settings\<close>

text \<open>
  C6: when the provider select changes to an option other than the current provider,
  the settings become exactly the template object of the new provider: the same
  fields in the same order with the template's values, whatever the settings were.
\<close>

theorem C6_provider_change_resets_settings:
  assumes "provider (run es mount) \<noteq> option_value p"
  shows "provider (step (SelectProvider p) (run es mount)) = option_value p \<and>
         settingsTemplates (option_value p)
           = Some (settings (step (SelectProvider p) (run es mount)))"
proof -
  have "deps_provider (run es mount) = provider (run es mount)"
    using settled_run [OF settled_mount, of es] by (simp add: settled_def)
  with assms show ?thesis
    by (cases p) (simp_all add: settings_commit settingsTemplates_def)
qed

theorem C6_provider_change_resets_settings_witness:
  "provider (run [SelectProvider Stability, UpdateSetting ''cfg_scale'' 9] mount)
     \<noteq> option_value Runway \<and>
   settings (run [SelectProvider Stability, UpdateSetting ''cfg_scale'' 9] mount)
     = [(''duration'', 3), (''width'', 768), (''height'', 432), (''cfg_scale'', 9)] \<and>
   settings (step (SelectProvider Runway)
               (run [SelectProvider Stability, UpdateSetting ''cfg_scale'' 9] mount))
     = [(''num_steps'', 50), (''fps'', 24)]"
proof -
  have a: "provider (run [SelectProvider Stability, UpdateSetting ''cfg_scale'' 9] mount)
             \<noteq> option_value Runway"
    by (simp add: eval_defs)
  have b: "settings (run [SelectProvider Stability, UpdateSetting ''cfg_scale'' 9] mount)
             = [(''duration'', 3), (''width'', 768), (''height'', 432), (''cfg_scale'', 9)]"
    by (simp add: eval_defs)
  show ?thesis
    using a b C6_provider_change_resets_settings [OF a]
    by (simp add: settingsTemplates_def template_runway_def)
qed

section \<open>Video upload\<close>

text \<open>
  C8: for a selected file whose declared type does not start with \<open>video/\<close>, the
  upload handler issues no request and sets the validation message, which the open
  modal (the file input exists only there) displays.
\<close>

theorem C8_non_video_rejected:
  assumes "\<not> prefix ''video/'' (file_type f)" and "isOpen a"
  shows "m_requests (handleVideoUpload (Some f) a) = m_requests a \<and>
         m_error (handleVideoUpload (Some f) a) = msg_invalid_video \<and>
         m_render_error (handleVideoUpload (Some f) a) = Some msg_invalid_video"
  using assms by (simp add: handleVideoUpload_def m_render_error_def msg_invalid_video_def)

theorem C8_non_video_rejected_witness:
  "\<not> prefix ''video/'' (file_type sample_image) \<and> isOpen (modal_initial True) \<and>
   m_requests (handleVideoUpload (Some sample_image) (modal_initial True)) = [] \<and>
   m_render_error (handleVideoUpload (Some sample_image) (modal_initial True))
     = Some msg_invalid_video"
proof -
  have a: "\<not> prefix ''video/'' (file_type sample_image)"
    by (simp add: sample_image_def)
  have b: "isOpen (modal_initial True)"
    by (simp add: modal_initial_def)
  have c: "m_requests (modal_initial True) = []"
    by (simp add: modal_initial_def)
  show ?thesis
    using a b c C8_non_video_rejected [OF a b] by simp
qed

section \<open>Messages of the server\<close>

text \<open>
  C9 as stated fails for an empty message. A rejected prompt submission whose body
  carries the detail \<open>""\<close> displays the generic text for a failed communication, not
  \<open>Erreur: \<close> followed by the (empty) detail; a status answer \<open>failed\<close> whose error
  field is \<open>""\<close> displays no error paragraph at all.
\<close>

theorem C9_empty_message_counterexample:
  "isOpen modal_submitted \<and>
   m_render_error (submit_rejected (Some []) modal_submitted)
     = Some (''Erreur: '' @ msg_no_api) \<and>
   m_render_error (submit_rejected (Some []) modal_submitted) \<noteq> Some (''Erreur: '' @ []) \<and>
   0 < length (inflight_gets (ui_run first_poll mount)) \<and>
   status (st_failed []) = ''failed'' \<and> task_error (st_failed []) = Some [] \<and>
   render_generation_error (step (GetOk 0 (st_failed [])) (ui_run first_poll mount)) = None \<and>
   render_generation_error (step (GetOk 0 (st_failed [])) (ui_run first_poll mount))
     \<noteq> Some []"
  by (simp add: modal_submitted_def modal_initial_def handleSubmit_def submit_rejected_def
      m_render_error_def or_else_def msg_no_api_def trim_defs eval_defs
      generate_disabled_def render_generation_error_def)

text \<open>
  C9, amended: a server-supplied message that is not empty is passed through verbatim.
  In the open modal, a rejected prompt submission with detail \<open>detail\<close> displays
  \<open>Erreur: \<close> followed by \<open>detail\<close>. In a generator driven through its controls, a
  status answer \<open>failed\<close> with error \<open>msg\<close> displays \<open>msg\<close> in the error paragraph
  of the generation status.
\<close>

theorem C9_nonempty_message_passed_through:
  assumes "detail \<noteq> []" and "isOpen a"
    and "msg \<noteq> []" and "status d = ''failed''" and "task_error d = Some msg"
    and "k < length (inflight_gets (ui_run es mount))"
  shows "m_render_error (submit_rejected (Some detail) a) = Some (''Erreur: '' @ detail) \<and>
         render_generation_error (step (GetOk k d) (ui_run es mount)) = Some msg"
proof -
  have "ui_inv (ui_run es mount)"
    using ui_inv_mount by (rule ui_inv_run)
  moreover from assms(6) have "inflight_gets (ui_run es mount) \<noteq> []" by auto
  ultimately have "truthy_str (taskId (ui_run es mount))"
    using ui_inv_polling by blast
  with assms(3-6)
  have "render_generation_error (step (GetOk k d) (ui_run es mount)) = Some msg"
    by (simp add: render_generation_error_def get_resolved_def truthy_str_def)
  moreover have "m_render_error (submit_rejected (Some detail) a)
                   = Some (''Erreur: '' @ detail)"
    using assms(1,2) by (simp add: m_render_error_def submit_rejected_def or_else_def)
  ultimately show ?thesis by simp
qed

theorem C9_nonempty_message_passed_through_witness:
  "''Unknown provider'' \<noteq> [] \<and> isOpen modal_submitted \<and> ''out of memory'' \<noteq> [] \<and>
   status (st_failed ''out of memory'') = ''failed'' \<and>
   task_error (st_failed ''out of memory'') = Some ''out of memory'' \<and>
   0 < length (inflight_gets (ui_run first_poll mount)) \<and>
   m_render_error (submit_rejected (Some ''Unknown provider'') modal_submitted)
     = Some ''Erreur: Unknown provider'' \<and>
   render_generation_error
     (step (GetOk 0 (st_failed ''out of memory'')) (ui_run first_poll mount))
     = Some ''out of memory''"
proof -
  have a: "''Unknown provider'' \<noteq> []" and c: "''out of memory'' \<noteq> []"
    by simp_all
  have b: "isOpen modal_submitted"
    by (simp add: modal_submitted_def modal_initial_def handleSubmit_def trim_defs)
  have d: "status (st_failed ''out of memory'') = ''failed''"
    and e: "task_error (st_failed ''out of memory'') = Some ''out of memory''"
    by (simp_all add: st_failed_def)
  have f: "0 < length (inflight_gets (ui_run first_poll mount))"
    by (simp add: eval_defs trim_defs generate_disabled_def)
  from C9_nonempty_message_passed_through [OF a b c d e f] a b c d e f
  show ?thesis by (intro conjI) simp_all
qed

end
